theory Spec2Isabelle
  imports Main "HOL-Library.Sublist" "HOL-Library.AList"
begin

section \<open>The file system the managers work on\<close>

text \<open>
  The four modules (ZipReplace.py, ZipProcessor.py, ScaleZip.py and
  ZipProcessorComposition.py) touch two paths of the current directory: the archive
  \<open>self.filename\<close> and the temporary directory \<open>self.temp_directory\<close>, which the
  constructor names \<open>"unzipped-" + filename\<close>. The current directory is a map from names
  to nodes. A directory's children are an association list, in the order in which
  \<open>Path.iterdir\<close> yields them.

  The content of a regular file is one of: text (\<open>Text s\<close>: the bytes are the encoding,
  in the platform's default encoding, of the character string \<open>s\<close>, line endings as they
  are on disk), a raster image that PIL can open, of some width and height, any other
  bytes, or a zip archive. A zip archive is a list of members: each has a path (its
  components) and either the data of a file or, for a directory entry (a name ending in
  \<open>/\<close>), nothing.

  The platform is POSIX: \<open>os.linesep\<close> is a line feed. The file name given to a
  constructor is a name in the current directory. A file that is text is not an image,
  and the other way round; every string can be written in the default encoding.
\<close>

datatype payload =
    Text string
  | Image nat nat
  | Blob string
  | Zip "(string list \<times> payload option) list"

datatype node = File payload | Dir "(string \<times> node) list"

type_synonym member = "string list \<times> payload option"

type_synonym dir = "(string \<times> node) list"

text \<open>
  The exceptions of Python's library that the code lets through. None of the modules
  defines an exception class, and none has a \<open>try\<close> apart from the one around
  \<open>mkdir\<close>. An \<open>OSError\<close> has the path it failed on as its \<open>filename\<close>, and
  PIL's \<open>UnidentifiedImageError\<close> has it in its message; a \<open>UnicodeDecodeError\<close>
  names no file.
\<close>

datatype exn =
    FileNotFoundError string
  | FileExistsError string
  | IsADirectoryError string
  | NotADirectoryError string
  | BadZipFile
  | UnicodeDecodeError
  | UnidentifiedImageError string
  | ValueError string


text \<open>
  The state: the current directory, what has been printed, a counter of the calls of
  \<open>shutil.rmtree\<close> (it is not part of the program; it is there to count them), and
  PIL's registry \<open>Image.EXTENSION\<close> of the file extensions it can save to (the table
  is PIL's, not this repository's, so it is left open).
\<close>

record world =
  cwd :: "string \<Rightarrow> node option"
  stdout :: "string list"
  rmtree_calls :: nat
  EXTENSION :: "string list"

definition joinpath :: "string \<Rightarrow> string \<Rightarrow> string" where
  "joinpath d n = d @ ''/'' @ n"

subsection \<open>pathlib and shutil\<close>

definition mkdir :: "string \<Rightarrow> world \<Rightarrow> exn + world" where
  "mkdir p st =
     (case cwd st p of
        None \<Rightarrow> Inr (st\<lparr>cwd := (cwd st)(p \<mapsto> Dir [])\<rparr>)
      | Some _ \<Rightarrow> Inl (FileExistsError p))"

definition iterdir :: "string \<Rightarrow> world \<Rightarrow> exn + string list" where
  "iterdir p st =
     (case cwd st p of
        None \<Rightarrow> Inl (FileNotFoundError p)
      | Some (File _) \<Rightarrow> Inl (NotADirectoryError p)
      | Some (Dir d) \<Rightarrow> Inr (map fst d))"

definition rmtree :: "string \<Rightarrow> world \<Rightarrow> exn + world" where
  "rmtree p st =
     (case cwd st p of
        None \<Rightarrow> Inl (FileNotFoundError p)
      | Some (File _) \<Rightarrow> Inl (NotADirectoryError p)
      | Some (Dir _) \<Rightarrow>
          Inr (st\<lparr>cwd := (cwd st)(p := None), rmtree_calls := Suc (rmtree_calls st)\<rparr>))"

text \<open>
  The node at \<open>d/n\<close>, for a child \<open>n\<close> of the directory \<open>d\<close> of the current
  directory.
\<close>

definition lookup :: "string \<Rightarrow> string \<Rightarrow> world \<Rightarrow> exn + node" where
  "lookup d n st =
     (case cwd st d of
        None \<Rightarrow> Inl (FileNotFoundError (joinpath d n))
      | Some (File _) \<Rightarrow> Inl (NotADirectoryError (joinpath d n))
      | Some (Dir c) \<Rightarrow>
          (case map_of c n of
             None \<Rightarrow> Inl (FileNotFoundError (joinpath d n))
           | Some x \<Rightarrow> Inr x))"

text \<open>
  Opening \<open>d/n\<close> for writing and writing the data \<open>p\<close>: the file is created, or
  truncated and filled.
\<close>

definition store :: "string \<Rightarrow> string \<Rightarrow> payload \<Rightarrow> world \<Rightarrow> exn + world" where
  "store d n p st =
     (case cwd st d of
        None \<Rightarrow> Inl (FileNotFoundError (joinpath d n))
      | Some (File _) \<Rightarrow> Inl (NotADirectoryError (joinpath d n))
      | Some (Dir c) \<Rightarrow>
          (case map_of c n of
             Some (Dir _) \<Rightarrow> Inl (IsADirectoryError (joinpath d n))
           | _ \<Rightarrow> Inr (st\<lparr>cwd := (cwd st)(d \<mapsto> Dir (AList.update n (File p) c))\<rparr>)))"

subsection \<open>Text files and \<open>str.replace\<close>\<close>

definition CR :: char where
  "CR = CHR 0x0D"

definition LF :: char where
  "LF = CHR 0x0A"

text \<open>
  \<open>Path.open()\<close> opens in text mode with \<open>newline=None\<close>: on reading, \<open>\r\n\<close> and a
  lone \<open>\r\<close> both come back as \<open>\n\<close>.
\<close>

fun universal_newlines :: "string \<Rightarrow> string" where
  "universal_newlines [] = []"
| "universal_newlines [c] = (if c = CR then [LF] else [c])"
| "universal_newlines (c # d # cs) =
     (if c = CR \<and> d = LF then LF # universal_newlines cs
      else if c = CR then LF # universal_newlines (d # cs)
      else c # universal_newlines (d # cs))"

text \<open>\<open>with filename.open() as file: contents = file.read()\<close>\<close>

definition read_text :: "string \<Rightarrow> string \<Rightarrow> world \<Rightarrow> exn + string" where
  "read_text d n st =
     (case lookup d n st of
        Inl e \<Rightarrow> Inl e
      | Inr (Dir _) \<Rightarrow> Inl (IsADirectoryError (joinpath d n))
      | Inr (File (Text s)) \<Rightarrow> Inr (universal_newlines s)
      | Inr (File _) \<Rightarrow> Inl UnicodeDecodeError)"

text \<open>
  \<open>with filename.open("w") as file: file.write(contents)\<close>; on writing, \<open>\n\<close> becomes
  \<open>os.linesep\<close>, which is \<open>\n\<close>.
\<close>

definition write_text :: "string \<Rightarrow> string \<Rightarrow> string \<Rightarrow> world \<Rightarrow> exn + world" where
  "write_text d n contents st = store d n (Text contents) st"

text \<open>
  \<open>s.replace(old, new)\<close>: with an empty \<open>old\<close>, \<open>new\<close> goes before every character
  and at the end; otherwise the occurrences of \<open>old\<close> are found from the left, each
  search starting behind the occurrence before.
\<close>

function py_replace :: "string \<Rightarrow> string \<Rightarrow> string \<Rightarrow> string" where
  "py_replace old new s =
     (if old = [] then new @ concat (map (\<lambda>c. c # new) s)
      else if s = [] then []
      else if prefix old s then new @ py_replace old new (drop (length old) s)
      else hd s # py_replace old new (tl s))"
  by pat_completeness auto
termination
  by (relation "measure (\<lambda>(old, new, s). length s)") auto

declare py_replace.simps [simp del]


subsection \<open>zipfile\<close>

text \<open>\<open>zipfile.ZipFile(filename)\<close>: the members of the archive, when it is one.\<close>

definition ZipFile_r :: "string \<Rightarrow> world \<Rightarrow> exn + member list" where
  "ZipFile_r f st =
     (case cwd st f of
        None \<Rightarrow> Inl (FileNotFoundError f)
      | Some (Dir _) \<Rightarrow> Inl (IsADirectoryError f)
      | Some (File (Zip ms)) \<Rightarrow> Inr ms
      | Some (File _) \<Rightarrow> Inl BadZipFile)"

text \<open>
  Extracting one member below the directory with the children \<open>d\<close> (\<open>at\<close> is that
  directory's path, for the error): the directories on the way are made, a file is
  written over a file of the same name, a directory entry makes the directory unless it
  is there.
\<close>

fun extract_member :: "string \<Rightarrow> string list \<Rightarrow> payload option \<Rightarrow> dir \<Rightarrow> exn + dir" where
  "extract_member at [] None d = Inr d"
| "extract_member at [] (Some p) d = Inl (IsADirectoryError at)"
| "extract_member at [n] (Some p) d =
     (case map_of d n of
        Some (Dir _) \<Rightarrow> Inl (IsADirectoryError (joinpath at n))
      | _ \<Rightarrow> Inr (AList.update n (File p) d))"
| "extract_member at [n] None d =
     (case map_of d n of
        None \<Rightarrow> Inr (AList.update n (Dir []) d)
      | Some (Dir _) \<Rightarrow> Inr d
      | Some (File _) \<Rightarrow> Inl (FileExistsError (joinpath at n)))"
| "extract_member at (n # ns) m d =
     (case map_of d n of
        Some (File _) \<Rightarrow> Inl (NotADirectoryError (joinpath at n))
      | Some (Dir sub) \<Rightarrow>
          (case extract_member (joinpath at n) ns m sub of
             Inl e \<Rightarrow> Inl e
           | Inr sub' \<Rightarrow> Inr (AList.update n (Dir sub') d))
      | None \<Rightarrow>
          (case extract_member (joinpath at n) ns m [] of
             Inl e \<Rightarrow> Inl e
           | Inr sub' \<Rightarrow> Inr (AList.update n (Dir sub') d)))"

text \<open>The members in turn; what was extracted before a failure stays.\<close>

fun extract_members :: "string \<Rightarrow> member list \<Rightarrow> dir \<Rightarrow> (exn + unit) \<times> dir" where
  "extract_members at [] d = (Inr (), d)"
| "extract_members at ((p, m) # ms) d =
     (case extract_member at p m d of
        Inl e \<Rightarrow> (Inl e, d)
      | Inr d' \<Rightarrow> extract_members at ms d')"

text \<open>
  \<open>zip.extractall(path)\<close>. With no member nothing is touched; a path that is missing
  is made with the first member.
\<close>

definition extractall :: "member list \<Rightarrow> string \<Rightarrow> world \<Rightarrow> (exn + unit) \<times> world" where
  "extractall ms p st =
     (if ms = [] then (Inr (), st)
      else case cwd st p of
        Some (File _) \<Rightarrow> (Inl (NotADirectoryError p), st)
      | Some (Dir d) \<Rightarrow>
          (case extract_members p ms d of
             (r, d') \<Rightarrow> (r, st\<lparr>cwd := (cwd st)(p \<mapsto> Dir d')\<rparr>))
      | None \<Rightarrow>
          (case extract_members p ms [] of
             (r, d') \<Rightarrow> (r, st\<lparr>cwd := (cwd st)(p \<mapsto> Dir d')\<rparr>)))"

text \<open>
  \<open>zipfile.ZipFile(filename, 'w')\<close>: the file is made or truncated; when the
  \<open>with\<close> block is left, also by an exception, it is an archive of the members written
  until then.
\<close>

definition ZipFile_w :: "string \<Rightarrow> world \<Rightarrow> exn + world" where
  "ZipFile_w f st =
     (case cwd st f of
        Some (Dir _) \<Rightarrow> Inl (IsADirectoryError f)
      | _ \<Rightarrow> Inr (st\<lparr>cwd := (cwd st)(f \<mapsto> File (Zip []))\<rparr>))"

text \<open>
  \<open>file.write(str(filename), filename.name)\<close> for the child \<open>n\<close> of \<open>d\<close>: a file
  goes in with its data under the name \<open>n\<close>; a directory goes in as a directory entry
  \<open>n/\<close>, without what is below it.
\<close>

fun member_data :: "node \<Rightarrow> payload option" where
  "member_data (File p) = Some p"
| "member_data (Dir _) = None"

definition ZipFile_write :: "string \<Rightarrow> string \<Rightarrow> string \<Rightarrow> world \<Rightarrow> exn + world" where
  "ZipFile_write f d n st =
     (case lookup d n st of
        Inl e \<Rightarrow> Inl e
      | Inr x \<Rightarrow>
          (case cwd st f of
             Some (File (Zip ms)) \<Rightarrow>
               Inr (st\<lparr>cwd := (cwd st)(f \<mapsto> File (Zip (ms @ [([n], member_data x)])))\<rparr>)
           | _ \<Rightarrow> Inl (ValueError f)))"

subsection \<open>PIL\<close>

text \<open>\<open>Image.open(str(filename))\<close>: the size of the image in the file.\<close>

definition Image_open :: "string \<Rightarrow> string \<Rightarrow> world \<Rightarrow> exn + nat \<times> nat" where
  "Image_open d n st =
     (case lookup d n st of
        Inl e \<Rightarrow> Inl e
      | Inr (Dir _) \<Rightarrow> Inl (IsADirectoryError (joinpath d n))
      | Inr (File (Image w h)) \<Rightarrow> Inr (w, h)
      | Inr (File _) \<Rightarrow> Inl (UnidentifiedImageError (joinpath d n)))"

text \<open>\<open>im.resize(size)\<close>: an image of the size asked for, whatever the size of \<open>im\<close>.\<close>

definition resize :: "nat \<times> nat \<Rightarrow> nat \<times> nat \<Rightarrow> nat \<times> nat" where
  "resize im target = target"

text \<open>
  \<open>os.path.splitext(name)[1].lower()\<close>: from the last dot on, the dots the name starts
  with apart.
\<close>

definition lower :: "string \<Rightarrow> string" where
  "lower s =
     map (\<lambda>c. if 65 \<le> (of_char c :: nat) \<and> (of_char c :: nat) \<le> 90
               then char_of (of_char c + (32 :: nat)) else c) s"

definition splitext :: "string \<Rightarrow> string" where
  "splitext name =
     (let stripped = dropWhile (\<lambda>c. c = CHR ''.'') name
      in if CHR ''.'' \<in> set stripped
         then CHR ''.'' # rev (takeWhile (\<lambda>c. c \<noteq> CHR ''.'') (rev stripped))
         else [])"

text \<open>
  \<open>scaled.save(str(filename))\<close>: the format comes from the extension of the name; an
  extension that is not registered is a \<open>ValueError\<close>, raised before the file is opened.
\<close>

definition Image_save :: "nat \<times> nat \<Rightarrow> string \<Rightarrow> string \<Rightarrow> world \<Rightarrow> exn + world" where
  "Image_save im d n st =
     (if lower (splitext n) \<in> set (EXTENSION st)
      then store d n (Image (fst im) (snd im)) st
      else Inl (ValueError (''unknown file extension: '' @ lower (splitext n))))"

section \<open>The managers\<close>

text \<open>
  \<open>ZipProcessor.__init__\<close> sets \<open>filename\<close> and \<open>temp_directory\<close>; \<open>ZipReplace\<close>
  (on its own in ZipReplace.py, a subclass in ZipProcessor.py) has the two strings as
  well. In ZipProcessorComposition.py the \<open>ZipProcessor\<close> holds a \<open>processor\<close>, an object
  of that module's class \<open>ZipReplace\<close> or \<open>ScaleZip\<close>.
\<close>

record ZipProcessor =
  filename :: string
  temp_directory :: string

record ZipReplace = ZipProcessor +
  search_string :: string
  replace_string :: string

datatype processor = C_ZipReplace string string | C_ScaleZip

record C_ZipProcessor = ZipProcessor +
  processor :: processor

definition ZipProcessor_init :: "string \<Rightarrow> ZipProcessor" where
  "ZipProcessor_init fname =
     \<lparr>filename = fname, temp_directory = ''unzipped-'' @ fname\<rparr>"

definition ZipReplace_init :: "string \<Rightarrow> string \<Rightarrow> string \<Rightarrow> ZipReplace" where
  "ZipReplace_init fname search replace =
     \<lparr>filename = fname, temp_directory = ''unzipped-'' @ fname,
      search_string = search, replace_string = replace\<rparr>"

definition C_ZipProcessor_init :: "processor \<Rightarrow> string \<Rightarrow> C_ZipProcessor" where
  "C_ZipProcessor_init proc fname =
     \<lparr>filename = fname, temp_directory = ''unzipped-'' @ fname, processor = proc\<rparr>"

subsection \<open>\<open>unzip_files\<close> and \<open>zip_files\<close>: the same text in the four modules\<close>

definition unzip_files :: "'a ZipProcessor_scheme \<Rightarrow> world \<Rightarrow> (exn + unit) \<times> world" where
  "unzip_files self st =
     (case (case mkdir (temp_directory self) st of
              Inr st' \<Rightarrow> Inr st'
            | Inl (FileExistsError _) \<Rightarrow>
                Inr (st\<lparr>stdout := stdout st @ [''WARNING: temp dir already present!'']\<rparr>)
            | Inl e \<Rightarrow> Inl e) of
        Inl e \<Rightarrow> (Inl e, st)
      | Inr st1 \<Rightarrow>
          (case ZipFile_r (filename self) st1 of
             Inl e \<Rightarrow> (Inl e, st1)
           | Inr ms \<Rightarrow> extractall ms (temp_directory self) st1))"

fun zip_files_loop :: "'a ZipProcessor_scheme \<Rightarrow> string list \<Rightarrow> world \<Rightarrow> (exn + unit) \<times> world" where
  "zip_files_loop self [] st = (Inr (), st)"
| "zip_files_loop self (name # rest) st =
     (case ZipFile_write (filename self) (temp_directory self) name st of
        Inl e \<Rightarrow> (Inl e, st)
      | Inr st' \<Rightarrow> zip_files_loop self rest st')"

definition zip_files :: "'a ZipProcessor_scheme \<Rightarrow> world \<Rightarrow> (exn + unit) \<times> world" where
  "zip_files self st =
     (case ZipFile_w (filename self) st of
        Inl e \<Rightarrow> (Inl e, st)
      | Inr st1 \<Rightarrow>
          (case iterdir (temp_directory self) st1 of
             Inl e \<Rightarrow> (Inl e, st1)
           | Inr names \<Rightarrow>
               (case zip_files_loop self names st1 of
                  (Inl e, st2) \<Rightarrow> (Inl e, st2)
                | (Inr _, st2) \<Rightarrow>
                    (case rmtree (temp_directory self) st2 of
                       Inl e \<Rightarrow> (Inl e, st2)
                     | Inr st3 \<Rightarrow> (Inr (), st3)))))"

subsection \<open>ZipReplace.py\<close>

fun find_replace_loop :: "'a ZipReplace_scheme \<Rightarrow> string list \<Rightarrow> world \<Rightarrow> (exn + unit) \<times> world" where
  "find_replace_loop self [] st = (Inr (), st)"
| "find_replace_loop self (name # rest) st =
     (case read_text (temp_directory self) name st of
        Inl e \<Rightarrow> (Inl e, st)
      | Inr contents \<Rightarrow>
          (case write_text (temp_directory self) name
                  (py_replace (search_string self) (replace_string self) contents) st of
             Inl e \<Rightarrow> (Inl e, st)
           | Inr st' \<Rightarrow> find_replace_loop self rest st'))"

definition find_replace :: "'a ZipReplace_scheme \<Rightarrow> world \<Rightarrow> (exn + unit) \<times> world" where
  "find_replace self st =
     (case iterdir (temp_directory self) st of
        Inl e \<Rightarrow> (Inl e, st)
      | Inr names \<Rightarrow> find_replace_loop self names st)"

definition zip_find_replace :: "'a ZipReplace_scheme \<Rightarrow> world \<Rightarrow> (exn + unit) \<times> world" where
  "zip_find_replace self st =
     (case unzip_files self st of
        (Inl e, st1) \<Rightarrow> (Inl e, st1)
      | (Inr _, st1) \<Rightarrow>
          (case find_replace self st1 of
             (Inl e, st2) \<Rightarrow> (Inl e, st2)
           | (Inr _, st2) \<Rightarrow> zip_files self st2))"

subsection \<open>ZipProcessor.py and ScaleZip.py: a subclass overrides \<open>process_files\<close>\<close>

text \<open>
  \<open>process_zip\<close> calls \<open>self.process_files()\<close>, which is the method of the class of
  \<open>self\<close>: it is the first argument here.
\<close>

definition process_zip ::
  "('a ZipProcessor_scheme \<Rightarrow> world \<Rightarrow> (exn + unit) \<times> world) \<Rightarrow>
   'a ZipProcessor_scheme \<Rightarrow> world \<Rightarrow> (exn + unit) \<times> world" where
  "process_zip process_files self st =
     (case unzip_files self st of
        (Inl e, st1) \<Rightarrow> (Inl e, st1)
      | (Inr _, st1) \<Rightarrow>
          (case process_files self st1 of
             (Inl e, st2) \<Rightarrow> (Inl e, st2)
           | (Inr _, st2) \<Rightarrow> zip_files self st2))"

definition ZipProcessor_process_files :: "'a ZipProcessor_scheme \<Rightarrow> world \<Rightarrow> (exn + unit) \<times> world" where
  "ZipProcessor_process_files self st = (Inr (), st)"

fun ZipReplace_process_files_loop ::
  "'a ZipReplace_scheme \<Rightarrow> string list \<Rightarrow> world \<Rightarrow> (exn + unit) \<times> world" where
  "ZipReplace_process_files_loop self [] st = (Inr (), st)"
| "ZipReplace_process_files_loop self (name # rest) st =
     (case read_text (temp_directory self) name st of
        Inl e \<Rightarrow> (Inl e, st)
      | Inr contents \<Rightarrow>
          (case write_text (temp_directory self) name
                  (py_replace (search_string self) (replace_string self) contents) st of
             Inl e \<Rightarrow> (Inl e, st)
           | Inr st' \<Rightarrow> ZipReplace_process_files_loop self rest st'))"

definition ZipReplace_process_files :: "'a ZipReplace_scheme \<Rightarrow> world \<Rightarrow> (exn + unit) \<times> world" where
  "ZipReplace_process_files self st =
     (case iterdir (temp_directory self) st of
        Inl e \<Rightarrow> (Inl e, st)
      | Inr names \<Rightarrow> ZipReplace_process_files_loop self names st)"

fun ScaleZip_process_files_loop ::
  "'a ZipProcessor_scheme \<Rightarrow> string list \<Rightarrow> world \<Rightarrow> (exn + unit) \<times> world" where
  "ScaleZip_process_files_loop self [] st = (Inr (), st)"
| "ScaleZip_process_files_loop self (name # rest) st =
     (case Image_open (temp_directory self) name st of
        Inl e \<Rightarrow> (Inl e, st)
      | Inr im \<Rightarrow>
          (case Image_save (resize im (640, 480)) (temp_directory self) name st of
             Inl e \<Rightarrow> (Inl e, st)
           | Inr st' \<Rightarrow> ScaleZip_process_files_loop self rest st'))"

definition ScaleZip_process_files :: "'a ZipProcessor_scheme \<Rightarrow> world \<Rightarrow> (exn + unit) \<times> world" where
  "ScaleZip_process_files self st =
     (case iterdir (temp_directory self) st of
        Inl e \<Rightarrow> (Inl e, st)
      | Inr names \<Rightarrow> ScaleZip_process_files_loop self names st)"

subsection \<open>ZipProcessorComposition.py: the processor is an object handed in\<close>

fun C_ZipReplace_process_files_loop ::
  "string \<Rightarrow> string \<Rightarrow> 'a ZipProcessor_scheme \<Rightarrow> string list \<Rightarrow> world \<Rightarrow> (exn + unit) \<times> world" where
  "C_ZipReplace_process_files_loop search replace zipprocessor [] st = (Inr (), st)"
| "C_ZipReplace_process_files_loop search replace zipprocessor (fname # rest) st =
     (case read_text (temp_directory zipprocessor) fname st of
        Inl e \<Rightarrow> (Inl e, st)
      | Inr contents \<Rightarrow>
          (case write_text (temp_directory zipprocessor) fname
                  (py_replace search replace contents) st of
             Inl e \<Rightarrow> (Inl e, st)
           | Inr st' \<Rightarrow> C_ZipReplace_process_files_loop search replace zipprocessor rest st'))"

fun C_ScaleZip_process_files_loop ::
  "'a ZipProcessor_scheme \<Rightarrow> string list \<Rightarrow> world \<Rightarrow> (exn + unit) \<times> world" where
  "C_ScaleZip_process_files_loop zipprocessor [] st = (Inr (), st)"
| "C_ScaleZip_process_files_loop zipprocessor (fname # rest) st =
     (case Image_open (temp_directory zipprocessor) fname st of
        Inl e \<Rightarrow> (Inl e, st)
      | Inr im \<Rightarrow>
          (case Image_save (resize im (640, 480)) (temp_directory zipprocessor) fname st of
             Inl e \<Rightarrow> (Inl e, st)
           | Inr st' \<Rightarrow> C_ScaleZip_process_files_loop zipprocessor rest st'))"

text \<open>\<open>self.processor.process_files(self)\<close>, by the class of the processor.\<close>

fun C_process_files :: "processor \<Rightarrow> 'a ZipProcessor_scheme \<Rightarrow> world \<Rightarrow> (exn + unit) \<times> world" where
  "C_process_files (C_ZipReplace search replace) zipprocessor st =
     (case iterdir (temp_directory zipprocessor) st of
        Inl e \<Rightarrow> (Inl e, st)
      | Inr names \<Rightarrow> C_ZipReplace_process_files_loop search replace zipprocessor names st)"
| "C_process_files C_ScaleZip zipprocessor st =
     (case iterdir (temp_directory zipprocessor) st of
        Inl e \<Rightarrow> (Inl e, st)
      | Inr names \<Rightarrow> C_ScaleZip_process_files_loop zipprocessor names st)"

definition C_process_zip :: "'a C_ZipProcessor_scheme \<Rightarrow> world \<Rightarrow> (exn + unit) \<times> world" where
  "C_process_zip self st =
     (case unzip_files self st of
        (Inl e, st1) \<Rightarrow> (Inl e, st1)
      | (Inr _, st1) \<Rightarrow>
          (case C_process_files (processor self) self st1 of
             (Inl e, st2) \<Rightarrow> (Inl e, st2)
           | (Inr _, st2) \<Rightarrow> zip_files self st2))"

section \<open>Notions for the statements\<close>

text \<open>
  A step from \<open>st\<close> to \<open>st'\<close> that leaves every path but \<open>p\<close> as it was, does not
  remove \<open>p\<close>, and calls no \<open>rmtree\<close>.
\<close>

definition keeps :: "string \<Rightarrow> world \<Rightarrow> world \<Rightarrow> bool" where
  "keeps p st st' \<longleftrightarrow>
     (\<forall>x. x \<noteq> p \<longrightarrow> cwd st' x = cwd st x) \<and>
     (cwd st p \<noteq> None \<longrightarrow> cwd st' p \<noteq> None) \<and>
     rmtree_calls st' = rmtree_calls st \<and> EXTENSION st' = EXTENSION st"

text \<open>A text file of a directory, and the file that the replacement makes of it.\<close>

definition text_file :: "string \<times> string \<Rightarrow> string \<times> node" where
  "text_file e = (fst e, File (Text (snd e)))"

definition replaced :: "string \<Rightarrow> string \<Rightarrow> string \<times> string \<Rightarrow> string \<times> node" where
  "replaced old new e = (fst e, File (Text (py_replace old new (universal_newlines (snd e)))))"


text \<open>An image file of a directory, and the file that the scaling makes of it.\<close>

definition image_file :: "string \<times> nat \<times> nat \<Rightarrow> string \<times> node" where
  "image_file e = (fst e, File (Image (fst (snd e)) (snd (snd e))))"

definition scaled :: "string \<times> nat \<times> nat \<Rightarrow> string \<times> node" where
  "scaled e = (fst e, File (Image 640 480))"



text \<open>The file that extracting a member with a one-part name makes.\<close>

definition extracted :: "string \<times> payload \<Rightarrow> string \<times> node" where
  "extracted e = (fst e, File (snd e))"




subsection \<open>Files to run the managers on\<close>



text \<open>An archive \<open>data.zip\<close> whose one file is neither text nor an image.\<close>

definition blob_world :: world where
  "blob_world =
     \<lparr>cwd = [''data.zip'' \<mapsto> File (Zip [([''logo.bin''], Some (Blob ''xyz''))])],
      stdout = [], rmtree_calls = 0, EXTENSION = [''.png'', ''.jpg'']\<rparr>"



text \<open>
  A temporary directory as it is between \<open>unzip_files\<close> and \<open>zip_files\<close>: the files
  of the list, and the old archive beside it.
\<close>

definition unzipped_world :: "string \<Rightarrow> dir \<Rightarrow> world" where
  "unzipped_world fname d =
     \<lparr>cwd = [fname \<mapsto> File (Zip [([''gone.txt''], Some (Text ''old''))]),
             ''unzipped-'' @ fname \<mapsto> Dir d],
      stdout = [], rmtree_calls = 0, EXTENSION = [''.png'', ''.jpg'']\<rparr>"

section \<open>What the library functions do\<close>

subsection \<open>\<open>str.replace\<close> and the text mode\<close>

lemma py_replace_empty_old: "py_replace [] new s = new @ concat (map (\<lambda>c. c # new) s)"
  by (simp add: py_replace.simps)

lemma py_replace_Nil: "py_replace old new [] = (if old = [] then new else [])"
  by (simp add: py_replace.simps)

lemma py_replace_prefix:
  "old \<noteq> [] \<Longrightarrow> py_replace old new (old @ s) = new @ py_replace old new s"
  by (subst py_replace.simps) simp

lemma py_replace_no_prefix:
  "old \<noteq> [] \<Longrightarrow> \<not> prefix old (c # s) \<Longrightarrow> py_replace old new (c # s) = c # py_replace old new s"
  by (subst py_replace.simps) simp

lemma concat_singletons: "concat (map (\<lambda>c. [c]) s) = s"
  by (induction s) simp_all

lemma py_replace_same_aux: "old = new \<Longrightarrow> py_replace old new t = t"
proof (induction old new t rule: py_replace.induct)
  case (1 old new s)
  show ?case
  proof (cases "old = []")
    case True
    with 1(3) show ?thesis by (simp add: py_replace_empty_old concat_singletons)
  next
    case False
    note ne = this
    show ?thesis
    proof (cases "s = []")
      case True
      with ne show ?thesis by (simp add: py_replace_Nil)
    next
      case False
      note sne = this
      show ?thesis
      proof (cases "prefix old s")
        case True
        then obtain r where r: "s = old @ r" by (auto simp: prefix_def)
        with 1(1)[OF ne sne True 1(3)] ne 1(3) show ?thesis
          by (simp add: py_replace_prefix)
      next
        case False
        from sne obtain c r where s: "s = c # r" by (cases s) auto
        with 1(2)[OF ne sne False 1(3)] ne False show ?thesis
          by (simp add: py_replace_no_prefix)
      qed
    qed
  qed
qed

lemma py_replace_same: "py_replace x x t = t"
  by (rule py_replace_same_aux) simp





lemma universal_newlines_no_CR: "CR \<notin> set (universal_newlines s)"
  by (induction s rule: universal_newlines.induct) (auto simp: CR_def LF_def)

lemma universal_newlines_id: "CR \<notin> set s \<Longrightarrow> universal_newlines s = s"
  by (induction s rule: universal_newlines.induct) auto

lemma universal_newlines_fix: "universal_newlines s = s \<longleftrightarrow> CR \<notin> set s"
  using universal_newlines_no_CR[of s] universal_newlines_id[of s] by auto

section \<open>The modules against each other\<close>

lemma zip_files_loop_cong:
  "filename self = filename self' \<Longrightarrow> temp_directory self = temp_directory self' \<Longrightarrow>
   zip_files_loop self ns st = zip_files_loop self' ns st"
  by (induction ns arbitrary: st) (simp_all split: sum.splits)

lemma zip_files_cong:
  "filename self = filename self' \<Longrightarrow> temp_directory self = temp_directory self' \<Longrightarrow>
   zip_files self st = zip_files self' st"
  by (simp add: zip_files_def zip_files_loop_cong[of self self'] cong: sum.case_cong prod.case_cong)

lemma unzip_files_cong:
  "filename self = filename self' \<Longrightarrow> temp_directory self = temp_directory self' \<Longrightarrow>
   unzip_files self st = unzip_files self' st"
  by (simp add: unzip_files_def cong: sum.case_cong)

lemma C_ZipReplace_loop_eq:
  "temp_directory zp = temp_directory self \<Longrightarrow>
   C_ZipReplace_process_files_loop (search_string self) (replace_string self) zp ns st =
   ZipReplace_process_files_loop self ns st"
  by (induction ns arbitrary: st) (simp_all split: sum.splits)

lemma find_replace_loop_eq:
  "find_replace_loop self ns st = ZipReplace_process_files_loop self ns st"
  by (induction ns arbitrary: st) (simp_all split: sum.splits)

lemma find_replace_eq: "find_replace self st = ZipReplace_process_files self st"
  by (simp add: find_replace_def ZipReplace_process_files_def find_replace_loop_eq cong: sum.case_cong)

lemma zip_find_replace_eq: "zip_find_replace self st = process_zip ZipReplace_process_files self st"
  by (simp add: zip_find_replace_def process_zip_def find_replace_eq cong: sum.case_cong prod.case_cong)

lemma C_ScaleZip_loop_eq:
  "C_ScaleZip_process_files_loop zp ns st = ScaleZip_process_files_loop zp ns st"
  by (induction ns arbitrary: st) (simp_all split: sum.splits)

lemma C_process_files_ZipReplace:
  "temp_directory zp = temp_directory self \<Longrightarrow>
   C_process_files (C_ZipReplace (search_string self) (replace_string self)) zp st =
   ZipReplace_process_files self st"
  by (simp add: ZipReplace_process_files_def C_ZipReplace_loop_eq cong: sum.case_cong)

lemma C_process_files_ScaleZip:
  "C_process_files C_ScaleZip zp st = ScaleZip_process_files zp st"
  by (simp add: ScaleZip_process_files_def C_ScaleZip_loop_eq cong: sum.case_cong)

lemma C_process_zip_ZipReplace_eq:
  "C_process_zip (C_ZipProcessor_init (C_ZipReplace search replace) fname) st =
   process_zip ZipReplace_process_files (ZipReplace_init fname search replace) st"
proof -
  let ?c = "C_ZipProcessor_init (C_ZipReplace search replace) fname"
  let ?i = "ZipReplace_init fname search replace"
  have f: "filename ?c = filename ?i" and t: "temp_directory ?c = temp_directory ?i"
    by (simp_all add: C_ZipProcessor_init_def ZipReplace_init_def)
  have p: "processor ?c = C_ZipReplace (search_string ?i) (replace_string ?i)"
    by (simp add: C_ZipProcessor_init_def ZipReplace_init_def)
  show ?thesis
    unfolding C_process_zip_def process_zip_def p
    by (simp only: unzip_files_cong[OF f t] zip_files_cong[OF f t]
          C_process_files_ZipReplace[OF t])
qed

text \<open>
  C9. For every archive name, every state of the file system and every pair of a search
  and a replace string, the pipeline of ZipProcessorComposition.py, a \<open>ZipProcessor\<close>
  holding a \<open>ZipReplace\<close> processor, and the pipeline of ZipProcessor.py, the subclass
  \<open>ZipReplace\<close> of \<open>ZipProcessor\<close>, end the same way: the same outcome (success or
  the same exception) and the same file system, so the same archive.
\<close>

theorem composition_same_as_inheritance:
  "C_process_zip (C_ZipProcessor_init (C_ZipReplace search replace) fname) st =
   process_zip ZipReplace_process_files (ZipReplace_init fname search replace) st"
  by (rule C_process_zip_ZipReplace_eq)

section \<open>Directories and what the steps leave alone\<close>

subsection \<open>Association lists\<close>

lemma map_of_mid: "n \<notin> fst ` set pre \<Longrightarrow> map_of (pre @ (n, x) # rest) n = Some x"
  by (induction pre) auto

lemma update_mid:
  "n \<notin> fst ` set pre \<Longrightarrow> AList.update n v (pre @ (n, x) # rest) = pre @ (n, v) # rest"
  by (induction pre) auto




subsection \<open>What a step leaves alone\<close>

lemma keeps_refl: "keeps p st st"
  by (simp add: keeps_def)

lemma keeps_trans: "keeps p st st1 \<Longrightarrow> keeps p st1 st2 \<Longrightarrow> keeps p st st2"
  by (simp add: keeps_def)

lemma keeps_stdout: "keeps p st (st\<lparr>stdout := out\<rparr>)"
  by (simp add: keeps_def)

lemma keeps_put: "keeps p st (st\<lparr>cwd := (cwd st)(p \<mapsto> x)\<rparr>)"
  by (simp add: keeps_def)

lemma mkdir_keeps: "mkdir p st = Inr st' \<Longrightarrow> keeps p st st'"
  by (auto simp: mkdir_def keeps_def split: option.splits)

lemma store_keeps: "store d n x st = Inr st' \<Longrightarrow> keeps d st st'"
  by (auto simp: store_def keeps_def split: option.splits node.splits)

lemma extractall_keeps: "extractall ms p st = (r, st') \<Longrightarrow> keeps p st st'"
  by (auto simp: extractall_def keeps_def split: if_splits option.splits node.splits prod.splits)



lemma Image_save_keeps: "Image_save im d n st = Inr st' \<Longrightarrow> keeps d st st'"
  by (auto simp: Image_save_def dest: store_keeps split: if_splits)


lemma ZipReplace_loop_keeps:
  "ZipReplace_process_files_loop self ns st = (r, st') \<Longrightarrow> keeps (temp_directory self) st st'"
proof (induction ns arbitrary: st)
  case Nil
  then show ?case by (simp add: keeps_refl)
next
  case (Cons n ns)
  show ?case
  proof (cases "read_text (temp_directory self) n st")
    case (Inl e)
    with Cons.prems show ?thesis by (simp add: keeps_refl)
  next
    case (Inr contents)
    note rd = this
    show ?thesis
    proof (cases "write_text (temp_directory self) n
                    (py_replace (search_string self) (replace_string self) contents) st")
      case (Inl e)
      with Cons.prems rd show ?thesis by (simp add: keeps_refl)
    next
      case (Inr st1)
      with Cons.prems rd have "ZipReplace_process_files_loop self ns st1 = (r, st')" by simp
      from Cons.IH[OF this] store_keeps[OF Inr[unfolded write_text_def]] show ?thesis
        by (blast intro: keeps_trans)
    qed
  qed
qed

lemma ScaleZip_loop_keeps:
  "ScaleZip_process_files_loop self ns st = (r, st') \<Longrightarrow> keeps (temp_directory self) st st'"
proof (induction ns arbitrary: st)
  case Nil
  then show ?case by (simp add: keeps_refl)
next
  case (Cons n ns)
  show ?case
  proof (cases "Image_open (temp_directory self) n st")
    case (Inl e)
    with Cons.prems show ?thesis by (simp add: keeps_refl)
  next
    case (Inr im)
    note op = this
    show ?thesis
    proof (cases "Image_save (resize im (640, 480)) (temp_directory self) n st")
      case (Inl e)
      with Cons.prems op show ?thesis by (simp add: keeps_refl)
    next
      case (Inr st1)
      with Cons.prems op have "ScaleZip_process_files_loop self ns st1 = (r, st')" by simp
      from Cons.IH[OF this] Image_save_keeps[OF Inr] show ?thesis
        by (blast intro: keeps_trans)
    qed
  qed
qed

lemma ZipReplace_process_files_keeps:
  "ZipReplace_process_files self st = (r, st') \<Longrightarrow> keeps (temp_directory self) st st'"
  by (auto simp: ZipReplace_process_files_def keeps_refl dest: ZipReplace_loop_keeps split: sum.splits)

lemma ScaleZip_process_files_keeps:
  "ScaleZip_process_files self st = (r, st') \<Longrightarrow> keeps (temp_directory self) st st'"
  by (auto simp: ScaleZip_process_files_def keeps_refl dest: ScaleZip_loop_keeps split: sum.splits)


lemma unzip_files_keeps:
  "unzip_files self st = (r, st') \<Longrightarrow> keeps (temp_directory self) st st'"
  by (auto simp: unzip_files_def mkdir_def keeps_def extractall_def
      split: sum.splits option.splits if_splits node.splits prod.splits exn.splits)


subsection \<open>\<open>zip_files\<close>\<close>

lemma tmp_neq: "''unzipped-'' @ f \<noteq> f"
proof
  assume "''unzipped-'' @ f = f"
  then have "length (''unzipped-'' @ f) = length f" by simp
  then show False by simp
qed






subsection \<open>The loops over the temporary directory\<close>

lemma fst_text_file [simp]: "fst \<circ> text_file = fst"
  by (auto simp: text_file_def)

lemma fst_replaced [simp]: "fst \<circ> replaced old new = fst"
  by (auto simp: replaced_def)

lemma fst_image_file [simp]: "fst \<circ> image_file = fst"
  by (auto simp: image_file_def)

lemma fst_scaled [simp]: "fst \<circ> scaled = fst"
  by (auto simp: scaled_def)

lemma fst_entry [simp]:
  "fst (text_file e) = fst e" "fst (replaced old new e) = fst e"
  "fst (image_file i) = fst i" "fst (scaled i) = fst i"
  by (simp_all add: text_file_def replaced_def image_file_def scaled_def)

lemma read_text_mid:
  "cwd st d = Some (Dir (pre @ (n, x) # rest)) \<Longrightarrow> n \<notin> fst ` set pre \<Longrightarrow>
   read_text d n st =
     (case x of Dir _ \<Rightarrow> Inl (IsADirectoryError (joinpath d n))
      | File (Text s) \<Rightarrow> Inr (universal_newlines s)
      | File _ \<Rightarrow> Inl UnicodeDecodeError)"
  using map_of_mid[of n pre x rest] by (simp add: read_text_def lookup_def del: map_of_append)

lemma store_mid:
  "cwd st d = Some (Dir (pre @ (n, File q) # rest)) \<Longrightarrow> n \<notin> fst ` set pre \<Longrightarrow>
   store d n p st = Inr (st\<lparr>cwd := (cwd st)(d \<mapsto> Dir (pre @ (n, File p) # rest))\<rparr>)"
  using map_of_mid[of n pre "File q" rest] update_mid[of n pre "File p" "File q" rest]
  by (simp add: store_def del: map_of_append)

lemma Image_open_mid:
  "cwd st d = Some (Dir (pre @ (n, x) # rest)) \<Longrightarrow> n \<notin> fst ` set pre \<Longrightarrow>
   Image_open d n st =
     (case x of Dir _ \<Rightarrow> Inl (IsADirectoryError (joinpath d n))
      | File (Image w h) \<Rightarrow> Inr (w, h)
      | File _ \<Rightarrow> Inl (UnidentifiedImageError (joinpath d n)))"
  using map_of_mid[of n pre x rest] by (simp add: Image_open_def lookup_def del: map_of_append)

lemma ZipReplace_loop_texts:
  assumes "cwd st (temp_directory self) = Some (Dir (pre @ map text_file ts @ post))"
    and "distinct (map fst (pre @ map text_file ts @ post))"
  shows "ZipReplace_process_files_loop self (map fst ts @ ns) st =
     ZipReplace_process_files_loop self ns
       (st\<lparr>cwd := (cwd st)(temp_directory self \<mapsto>
          Dir (pre @ map (replaced (search_string self) (replace_string self)) ts @ post))\<rparr>)"
  using assms
proof (induction ts arbitrary: pre st)
  case Nil
  have e: "(cwd st)(temp_directory self \<mapsto> Dir (pre @ post)) = cwd st"
    using Nil.prems(1) by (simp add: fun_upd_idem)
  show ?case by (simp add: e)
next
  case (Cons a ts)
  obtain n t where a: "a = (n, t)" by (cases a)
  let ?new = "py_replace (search_string self) (replace_string self) (universal_newlines t)"
  let ?tmp = "temp_directory self"
  let ?st1 = "st\<lparr>cwd := (cwd st)(?tmp \<mapsto>
      Dir (pre @ (n, File (Text ?new)) # map text_file ts @ post))\<rparr>"
  have d: "cwd st ?tmp = Some (Dir (pre @ (n, File (Text t)) # (map text_file ts @ post)))"
    using Cons.prems(1) a by (simp add: text_file_def)
  have fresh: "n \<notin> fst ` set pre"
    using Cons.prems(2) a by auto
  have rd: "read_text ?tmp n st = Inr (universal_newlines t)"
    using read_text_mid[OF d fresh] by simp
  have wr: "write_text ?tmp n ?new st = Inr ?st1"
    using store_mid[OF d fresh] by (simp add: write_text_def)
  have step: "ZipReplace_process_files_loop self (map fst (a # ts) @ ns) st =
      ZipReplace_process_files_loop self (map fst ts @ ns) ?st1"
    using rd wr a by simp
  have d1: "cwd ?st1 ?tmp = Some (Dir ((pre @ [(n, File (Text ?new))]) @ map text_file ts @ post))"
    by simp
  have dist1: "distinct (map fst ((pre @ [(n, File (Text ?new))]) @ map text_file ts @ post))"
    using Cons.prems(2) a by auto
  have fin: "?st1\<lparr>cwd := (cwd ?st1)(?tmp \<mapsto>
          Dir ((pre @ [(n, File (Text ?new))]) @
               map (replaced (search_string self) (replace_string self)) ts @ post))\<rparr> =
     st\<lparr>cwd := (cwd st)(?tmp \<mapsto>
          Dir (pre @ map (replaced (search_string self) (replace_string self)) (a # ts) @ post))\<rparr>"
    using a by (simp add: replaced_def)
  show ?case unfolding step Cons.IH[OF d1 dist1] fin ..
qed

lemma ZipReplace_process_files_texts:
  assumes "cwd st (temp_directory self) = Some (Dir (map text_file ts))"
    and "distinct (map fst ts)"
  shows "ZipReplace_process_files self st =
     (Inr (), st\<lparr>cwd := (cwd st)(temp_directory self \<mapsto>
          Dir (map (replaced (search_string self) (replace_string self)) ts))\<rparr>)"
proof -
  have n: "map fst (map text_file ts) = map fst ts"
    by simp
  have d: "cwd st (temp_directory self) = Some (Dir ([] @ map text_file ts @ []))"
    using assms(1) by simp
  have dist: "distinct (map fst ([] @ map text_file ts @ []))"
    using assms(2) n by simp
  have it: "iterdir (temp_directory self) st = Inr (map fst ts @ [])"
    using assms(1) n by (simp add: iterdir_def)
  show ?thesis
    unfolding ZipReplace_process_files_def it sum.case ZipReplace_loop_texts[OF d dist]
    by simp
qed


subsection \<open>The scaling loop\<close>

lemma store_mid_image:
  "cwd st d = Some (Dir (pre @ (n, File q) # rest)) \<Longrightarrow> n \<notin> fst ` set pre \<Longrightarrow>
   lower (splitext n) \<in> set (EXTENSION st) \<Longrightarrow>
   Image_save im d n st =
     Inr (st\<lparr>cwd := (cwd st)(d \<mapsto> Dir (pre @ (n, File (Image (fst im) (snd im))) # rest))\<rparr>)"
  by (simp add: Image_save_def store_mid)

lemma ScaleZip_loop_images:
  assumes "cwd st (temp_directory self) = Some (Dir (pre @ map image_file is @ post))"
    and "distinct (map fst (pre @ map image_file is @ post))"
    and "\<forall>i\<in>set is. lower (splitext (fst i)) \<in> set (EXTENSION st)"
  shows "ScaleZip_process_files_loop self (map fst is @ ns) st =
     ScaleZip_process_files_loop self ns
       (st\<lparr>cwd := (cwd st)(temp_directory self \<mapsto> Dir (pre @ map scaled is @ post))\<rparr>)"
  using assms
proof (induction "is" arbitrary: pre st)
  case Nil
  have e: "(cwd st)(temp_directory self \<mapsto> Dir (pre @ post)) = cwd st"
    using Nil.prems(1) by (simp add: fun_upd_idem)
  show ?case by (simp add: e)
next
  case (Cons a "is")
  obtain n w h where a: "a = (n, w, h)" by (cases a)
  let ?tmp = "temp_directory self"
  let ?new = "File (Image 640 480)"
  let ?st1 = "st\<lparr>cwd := (cwd st)(?tmp \<mapsto> Dir (pre @ (n, ?new) # map image_file is @ post))\<rparr>"
  have d: "cwd st ?tmp = Some (Dir (pre @ (n, File (Image w h)) # (map image_file is @ post)))"
    using Cons.prems(1) a by (simp add: image_file_def)
  have fresh: "n \<notin> fst ` set pre"
    using Cons.prems(2) a by auto
  have ext: "lower (splitext n) \<in> set (EXTENSION st)"
    using Cons.prems(3) a by simp
  have op: "Image_open ?tmp n st = Inr (w, h)"
    using Image_open_mid[OF d fresh] by simp
  have sv: "Image_save (resize (w, h) (640, 480)) ?tmp n st = Inr ?st1"
    using store_mid_image[OF d fresh ext, of "(640, 480)"] by (simp add: resize_def)
  have step: "ScaleZip_process_files_loop self (map fst (a # is) @ ns) st =
      ScaleZip_process_files_loop self (map fst is @ ns) ?st1"
    using op sv a by simp
  have d1: "cwd ?st1 ?tmp = Some (Dir ((pre @ [(n, ?new)]) @ map image_file is @ post))"
    by simp
  have dist1: "distinct (map fst ((pre @ [(n, ?new)]) @ map image_file is @ post))"
    using Cons.prems(2) a by auto
  have ext1: "\<forall>i\<in>set is. lower (splitext (fst i)) \<in> set (EXTENSION ?st1)"
    using Cons.prems(3) by simp
  have fin: "?st1\<lparr>cwd := (cwd ?st1)(?tmp \<mapsto> Dir ((pre @ [(n, ?new)]) @ map scaled is @ post))\<rparr> =
     st\<lparr>cwd := (cwd st)(?tmp \<mapsto> Dir (pre @ map scaled (a # is) @ post))\<rparr>"
    using a by (simp add: scaled_def)
  show ?case unfolding step Cons.IH[OF d1 dist1 ext1] fin ..
qed

lemma ScaleZip_process_files_images:
  assumes "cwd st (temp_directory self) = Some (Dir (map image_file is))"
    and "distinct (map fst is)"
    and "\<forall>i\<in>set is. lower (splitext (fst i)) \<in> set (EXTENSION st)"
  shows "ScaleZip_process_files self st =
     (Inr (), st\<lparr>cwd := (cwd st)(temp_directory self \<mapsto> Dir (map scaled is))\<rparr>)"
proof -
  have d: "cwd st (temp_directory self) = Some (Dir ([] @ map image_file is @ []))"
    using assms(1) by simp
  have dist: "distinct (map fst ([] @ map image_file is @ []))"
    using assms(2) by simp
  have it: "iterdir (temp_directory self) st = Inr (map fst is @ [])"
    using assms(1) by (simp add: iterdir_def)
  show ?thesis
    unfolding ScaleZip_process_files_def it sum.case ScaleZip_loop_images[OF d dist assms(3)]
    by simp
qed



subsection \<open>Extracting an archive of files with one-part names\<close>

lemma fst_extracted [simp]: "fst (extracted e) = fst e"
  by (simp add: extracted_def)



section \<open>The pipeline\<close>

lemmas run_defs =
  process_zip_def C_process_zip_def zip_find_replace_def unzip_files_def zip_files_def
  find_replace_def ZipReplace_process_files_def ScaleZip_process_files_def
  ZipProcessor_process_files_def ZipProcessor_init_def ZipReplace_init_def C_ZipProcessor_init_def
  mkdir_def iterdir_def rmtree_def lookup_def store_def read_text_def write_text_def
  ZipFile_r_def ZipFile_w_def ZipFile_write_def extractall_def Image_open_def Image_save_def
  resize_def lower_def splitext_def joinpath_def py_replace.simps CR_def LF_def

lemma C_process_zip_eq:
  "C_process_zip self st = process_zip (C_process_files (processor self)) self st"
  by (simp add: C_process_zip_def process_zip_def)

lemma C_process_files_keeps:
  "C_process_files proc zp st = (r, st') \<Longrightarrow> keeps (temp_directory zp) st st'"
proof (cases proc)
  case (C_ZipReplace old new)
  let ?self = "\<lparr>filename = filename zp, temp_directory = temp_directory zp,
                search_string = old, replace_string = new\<rparr>"
  assume "C_process_files proc zp st = (r, st')"
  with C_ZipReplace C_process_files_ZipReplace[of zp ?self st]
  have "ZipReplace_process_files ?self st = (r, st')" by simp
  from ZipReplace_process_files_keeps[OF this] show ?thesis by simp
next
  case C_ScaleZip
  assume "C_process_files proc zp st = (r, st')"
  with C_ScaleZip have "ScaleZip_process_files zp st = (r, st')"
    by (simp only: C_process_files_ScaleZip)
  then show ?thesis by (rule ScaleZip_process_files_keeps)
qed


lemma process_zip_archive:
  assumes pf: "\<And>s r s'. pf self s = (r, s') \<Longrightarrow> keeps (temp_directory self) s s'"
    and ne: "filename self \<noteq> temp_directory self"
  shows "unzip_files self st = (r1, st1) \<Longrightarrow> cwd st1 (filename self) = cwd st (filename self)"
    and "pf self st1 = (r2, st2) \<Longrightarrow> cwd st2 (filename self) = cwd st1 (filename self)"
  using unzip_files_keeps[of self st r1 st1] pf[of st1 r2 st2] ne
  by (auto simp: keeps_def)

lemma init_simps [simp]:
  "filename (ZipProcessor_init f) = f" "temp_directory (ZipProcessor_init f) = ''unzipped-'' @ f"
  "filename (ZipReplace_init f old new) = f"
  "temp_directory (ZipReplace_init f old new) = ''unzipped-'' @ f"
  "search_string (ZipReplace_init f old new) = old"
  "replace_string (ZipReplace_init f old new) = new"
  "filename (C_ZipProcessor_init proc f) = f"
  "temp_directory (C_ZipProcessor_init proc f) = ''unzipped-'' @ f"
  "processor (C_ZipProcessor_init proc f) = proc"
  by (simp_all add: ZipProcessor_init_def ZipReplace_init_def C_ZipProcessor_init_def)

lemma neq_tmp [simp]: "f \<noteq> ''unzipped-'' @ f"
  using tmp_neq[of f] by auto







lemma process_zip_archive_all:
  assumes pf: "\<And>s r s'. pf self s = (r, s') \<Longrightarrow> keeps (temp_directory self) s s'"
    and ne: "filename self \<noteq> temp_directory self"
    and f: "filename self = f"
  shows "cwd (snd (unzip_files self st)) f = cwd st f \<and>
         cwd (snd (pf self st)) f = cwd st f \<and>
         (\<forall>e st1. unzip_files self st = (Inl e, st1) \<longrightarrow>
              process_zip pf self st = (Inl e, st1) \<and> cwd st1 f = cwd st f) \<and>
         (\<forall>e st1 st2. unzip_files self st = (Inr (), st1) \<and> pf self st1 = (Inl e, st2) \<longrightarrow>
              process_zip pf self st = (Inl e, st2) \<and> cwd st2 f = cwd st f)"
proof -
  have u: "cwd st1 f = cwd st f" if "unzip_files self st = (r1, st1)" for r1 st1
    using process_zip_archive(1)[of pf self st r1 st1] pf ne f that by simp
  have p: "cwd st2 f = cwd st1 f" if "pf self st1 = (r2, st2)" for r2 st1 st2
    using process_zip_archive(2)[of pf self st1 r2 st2] pf ne f that by simp
  have a: "cwd (snd (unzip_files self st)) f = cwd st f"
    using u[of "fst (unzip_files self st)" "snd (unzip_files self st)"] by simp
  have b: "cwd (snd (pf self st)) f = cwd st f"
    using p[of st "fst (pf self st)" "snd (pf self st)"] by simp
  have c: "process_zip pf self st = (Inl e, st1) \<and> cwd st1 f = cwd st f"
    if "unzip_files self st = (Inl e, st1)" for e st1
    using that u[OF that] by (simp add: process_zip_def)
  have d: "process_zip pf self st = (Inl e, st2) \<and> cwd st2 f = cwd st f"
    if "unzip_files self st = (Inr (), st1)" "pf self st1 = (Inl e, st2)" for e st1 st2
    using that u[OF that(1)] p[OF that(2)] by (simp add: process_zip_def)
  from a b c d show ?thesis by blast
qed

text \<open>
  C7. The archive is written by \<open>zip_files\<close> only. For every pipeline of the four
  modules and every state: \<open>unzip_files\<close> leaves the file of the archive as it was,
  whether it fails or not, and so does \<open>process_files\<close>; so a run that ends by an
  exception of \<open>unzip_files\<close> or of \<open>process_files\<close> ends with the archive unchanged.
\<close>

theorem archive_unchanged_before_zip_files:
  assumes "(unzip, transform, run) \<in>
      {(unzip_files (ZipReplace_init f old new), find_replace (ZipReplace_init f old new),
          zip_find_replace (ZipReplace_init f old new)),
       (unzip_files (ZipReplace_init f old new), ZipReplace_process_files (ZipReplace_init f old new),
          process_zip ZipReplace_process_files (ZipReplace_init f old new)),
       (unzip_files (ZipProcessor_init f), ScaleZip_process_files (ZipProcessor_init f),
          process_zip ScaleZip_process_files (ZipProcessor_init f)),
       (unzip_files (C_ZipProcessor_init proc f), C_process_files proc (C_ZipProcessor_init proc f),
          C_process_zip (C_ZipProcessor_init proc f))}"
  shows "cwd (snd (unzip st)) f = cwd st f \<and>
         cwd (snd (transform st)) f = cwd st f \<and>
         (\<forall>e st1. unzip st = (Inl e, st1) \<longrightarrow>
              run st = (Inl e, st1) \<and> cwd st1 f = cwd st f) \<and>
         (\<forall>e st1 st2. unzip st = (Inr (), st1) \<and> transform st1 = (Inl e, st2) \<longrightarrow>
              run st = (Inl e, st2) \<and> cwd st2 f = cwd st f)"
proof -
  consider
    (a) "unzip = unzip_files (ZipReplace_init f old new)"
        "transform = ZipReplace_process_files (ZipReplace_init f old new)"
        "run = process_zip ZipReplace_process_files (ZipReplace_init f old new)"
  | (b) "unzip = unzip_files (ZipProcessor_init f)"
        "transform = ScaleZip_process_files (ZipProcessor_init f)"
        "run = process_zip ScaleZip_process_files (ZipProcessor_init f)"
  | (c) "unzip = unzip_files (C_ZipProcessor_init proc f)"
        "transform = C_process_files proc (C_ZipProcessor_init proc f)"
        "run = process_zip (C_process_files proc) (C_ZipProcessor_init proc f)"
  proof -
    have e1: "find_replace (ZipReplace_init f old new) =
          ZipReplace_process_files (ZipReplace_init f old new)"
      by (rule ext) (rule find_replace_eq)
    have e2: "zip_find_replace (ZipReplace_init f old new) =
          process_zip ZipReplace_process_files (ZipReplace_init f old new)"
      by (rule ext) (rule zip_find_replace_eq)
    have e3: "C_process_zip (C_ZipProcessor_init proc f) =
          process_zip (C_process_files proc) (C_ZipProcessor_init proc f)"
      by (rule ext) (simp add: C_process_zip_eq)
    assume "\<lbrakk>unzip = unzip_files (ZipReplace_init f old new);
        transform = ZipReplace_process_files (ZipReplace_init f old new);
        run = process_zip ZipReplace_process_files (ZipReplace_init f old new)\<rbrakk> \<Longrightarrow> thesis"
      "\<lbrakk>unzip = unzip_files (ZipProcessor_init f);
        transform = ScaleZip_process_files (ZipProcessor_init f);
        run = process_zip ScaleZip_process_files (ZipProcessor_init f)\<rbrakk> \<Longrightarrow> thesis"
      "\<lbrakk>unzip = unzip_files (C_ZipProcessor_init proc f);
        transform = C_process_files proc (C_ZipProcessor_init proc f);
        run = process_zip (C_process_files proc) (C_ZipProcessor_init proc f)\<rbrakk> \<Longrightarrow> thesis"
    then show thesis using assms e1 e2 e3 by auto
  qed
  then show ?thesis
  proof cases
    case a
    show ?thesis unfolding a
      by (rule process_zip_archive_all, erule ZipReplace_process_files_keeps, simp_all)
  next
    case b
    show ?thesis unfolding b
      by (rule process_zip_archive_all, erule ScaleZip_process_files_keeps, simp_all)
  next
    case c
    show ?thesis unfolding c
      by (rule process_zip_archive_all, erule C_process_files_keeps, simp_all)
  qed
qed

theorem archive_unchanged_before_zip_files_witness:
  "fst (unzip_files (ZipReplace_init ''data.zip'' ''Maria'' ''Mario'') blob_world) = Inr () \<and>
   fst (find_replace (ZipReplace_init ''data.zip'' ''Maria'' ''Mario'')
          (snd (unzip_files (ZipReplace_init ''data.zip'' ''Maria'' ''Mario'') blob_world)))
     = Inl UnicodeDecodeError \<and>
   fst (zip_find_replace (ZipReplace_init ''data.zip'' ''Maria'' ''Mario'') blob_world)
     = Inl UnicodeDecodeError \<and>
   cwd (snd (zip_find_replace (ZipReplace_init ''data.zip'' ''Maria'' ''Mario'') blob_world))
       ''data.zip'' = Some (File (Zip [([''logo.bin''], Some (Blob ''xyz''))]))"
proof -
  let ?self = "ZipReplace_init ''data.zip'' ''Maria'' ''Mario''"
  let ?st1 = "snd (unzip_files ?self blob_world)"
  let ?st2 = "snd (find_replace ?self ?st1)"
  have u1: "fst (unzip_files ?self blob_world) = Inr ()"
    by (simp add: run_defs blob_world_def)
  have p1: "fst (find_replace ?self ?st1) = Inl UnicodeDecodeError"
    by (simp add: run_defs blob_world_def)
  have u: "unzip_files ?self blob_world = (Inr (), ?st1)"
    using u1 by (metis prod.collapse)
  have p: "find_replace ?self ?st1 = (Inl UnicodeDecodeError, ?st2)"
    using p1 by (metis prod.collapse)
  have r: "zip_find_replace ?self blob_world = (Inl UnicodeDecodeError, ?st2) \<and>
        cwd ?st2 ''data.zip'' = cwd blob_world ''data.zip''"
    using archive_unchanged_before_zip_files[of "unzip_files ?self" "find_replace ?self"
        "zip_find_replace ?self" "''data.zip''" "''Maria''" "''Mario''" C_ScaleZip blob_world] u p
    by blast
  have c3: "fst (zip_find_replace ?self blob_world) = Inl UnicodeDecodeError"
    by (simp only: r fst_conv)
  have "cwd (snd (zip_find_replace ?self blob_world)) ''data.zip'' = cwd blob_world ''data.zip''"
    by (simp only: r snd_conv)
  also have "\<dots> = Some (File (Zip [([''logo.bin''], Some (Blob ''xyz''))]))"
    by (simp add: blob_world_def)
  finally show ?thesis using u1 p1 c3 by blast
qed








subsection \<open>A run that comes through had text files only\<close>



















text \<open>
  C8, as the code has it. The files are read and written in text mode, so the content
  goes through the translation of line endings. For every temporary directory of text
  files (with distinct names) and a replace string equal to the search string,
  \<open>find_replace\<close> succeeds and leaves in each file its text with \<open>\r\n\<close> and \<open>\r\<close>
  made \<open>\n\<close>, and nothing else changed; that is the text itself exactly when it has no
  carriage return, and when no file has one the file system is left as it was.
\<close>

theorem same_search_and_replace:
  assumes "cwd st (temp_directory self) = Some (Dir (map text_file ts))"
    and "distinct (map fst ts)"
    and "replace_string self = search_string self"
  shows "find_replace self st =
           (Inr (), st\<lparr>cwd := (cwd st)(temp_directory self \<mapsto>
              Dir (map (\<lambda>e. text_file (fst e, universal_newlines (snd e))) ts))\<rparr>) \<and>
         (\<forall>e\<in>set ts. universal_newlines (snd e) = snd e \<longleftrightarrow> CR \<notin> set (snd e)) \<and>
         ((\<forall>e\<in>set ts. CR \<notin> set (snd e)) \<longrightarrow> find_replace self st = (Inr (), st))"
proof -
  have r: "replaced (search_string self) (replace_string self) =
        (\<lambda>e. text_file (fst e, universal_newlines (snd e)))"
    using assms(3) by (simp add: replaced_def text_file_def py_replace_same fun_eq_iff)
  have a: "find_replace self st =
           (Inr (), st\<lparr>cwd := (cwd st)(temp_directory self \<mapsto>
              Dir (map (\<lambda>e. text_file (fst e, universal_newlines (snd e))) ts))\<rparr>)"
    using ZipReplace_process_files_texts[OF assms(1,2)] by (simp only: find_replace_eq r)
  have b: "\<forall>e\<in>set ts. universal_newlines (snd e) = snd e \<longleftrightarrow> CR \<notin> set (snd e)"
    by (simp add: universal_newlines_fix)
  have c: "find_replace self st = (Inr (), st)" if "\<forall>e\<in>set ts. CR \<notin> set (snd e)"
  proof -
    have "map (\<lambda>e. text_file (fst e, universal_newlines (snd e))) ts = map text_file ts"
      using that by (simp add: universal_newlines_id text_file_def)
    with a assms(1) show ?thesis by (simp add: fun_upd_idem)
  qed
  from a b c show ?thesis by blast
qed

theorem same_search_and_replace_witness:
  "cwd (unzipped_world ''t.zip'' (map text_file [(''note.txt'', ''Hello Maria'')]))
       (temp_directory (ZipReplace_init ''t.zip'' ''Maria'' ''Maria'')) =
     Some (Dir (map text_file [(''note.txt'', ''Hello Maria'')])) \<and>
   distinct (map fst [(''note.txt'', ''Hello Maria'')]) \<and>
   replace_string (ZipReplace_init ''t.zip'' ''Maria'' ''Maria'') =
     search_string (ZipReplace_init ''t.zip'' ''Maria'' ''Maria'') \<and>
   CR \<notin> set ''Hello Maria'' \<and>
   find_replace (ZipReplace_init ''t.zip'' ''Maria'' ''Maria'')
       (unzipped_world ''t.zip'' (map text_file [(''note.txt'', ''Hello Maria'')])) =
     (Inr (), unzipped_world ''t.zip'' (map text_file [(''note.txt'', ''Hello Maria'')]))"
proof -
  let ?ts = "[(''note.txt'', ''Hello Maria'')]"
  let ?st = "unzipped_world ''t.zip'' (map text_file ?ts)"
  let ?self = "ZipReplace_init ''t.zip'' ''Maria'' ''Maria''"
  have h1: "cwd ?st (temp_directory ?self) = Some (Dir (map text_file ?ts))"
    by (simp add: unzipped_world_def)
  have h2: "distinct (map fst ?ts)" by simp
  have h3: "replace_string ?self = search_string ?self" by simp
  have h4: "\<forall>e\<in>set ?ts. CR \<notin> set (snd e)" by (simp add: CR_def)
  have h5: "CR \<notin> set ''Hello Maria''" by (simp add: CR_def)
  from same_search_and_replace[OF h1 h2 h3] h4
  have "find_replace ?self ?st = (Inr (), ?st)" by blast
  with h1 h2 h3 h5 show ?thesis by blast
qed

text \<open>
  The claim as it was stated fails on a text with a carriage return: with the search
  string equal to the replace string, the file \<open>a\rb\<close> comes back as \<open>a\nb\<close>.
\<close>

theorem carriage_return_not_kept:
  "fst (find_replace (ZipReplace_init ''t.zip'' ''Maria'' ''Maria'')
     (unzipped_world ''t.zip'' [(''note.txt'', File (Text [CHR ''a'', CR, CHR ''b'']))])) = Inr () \<and>
   cwd (snd (find_replace (ZipReplace_init ''t.zip'' ''Maria'' ''Maria'')
     (unzipped_world ''t.zip'' [(''note.txt'', File (Text [CHR ''a'', CR, CHR ''b'']))])))
     ''unzipped-t.zip'' = Some (Dir [(''note.txt'', File (Text [CHR ''a'', LF, CHR ''b'']))]) \<and>
   [CHR ''a'', LF, CHR ''b''] \<noteq> [CHR ''a'', CR, CHR ''b'']"
  by (simp add: run_defs unzipped_world_def)

lemma length_interleave: "length (concat (map (\<lambda>c. c # new) s)) = length s * Suc (length new)"
  by (induction s) simp_all

lemma py_replace_empty_old_length:
  "length (py_replace [] new s) = length s + (length s + 1) * length new"
  by (simp add: py_replace_empty_old length_interleave algebra_simps)

lemma py_replace_empty_old_same: "py_replace [] new s = s \<longleftrightarrow> new = []"
proof
  assume "py_replace [] new s = s"
  then have "length (py_replace [] new s) = length s" by simp
  then show "new = []" by (simp add: py_replace_empty_old_length)
next
  assume "new = []"
  then show "py_replace [] new s = s" by (simp add: py_replace_same)
qed

text \<open>
  C10, as the code has it. For every temporary directory of text files (with distinct
  names) and the empty search string, \<open>find_replace\<close> succeeds and leaves in each file
  the replace string, then each character of the text (as the text mode reads it)
  followed by the replace string: for a text of \<open>n\<close> characters that is \<open>n + 1\<close> copies
  of the replace string, \<open>n + (n + 1) * length replace\<close> characters. So the text is
  changed when the replace string is not empty, and is not changed when it is empty.
\<close>

theorem empty_search_string_inserts:
  assumes "cwd st (temp_directory self) = Some (Dir (map text_file ts))"
    and "distinct (map fst ts)"
    and "search_string self = []"
  shows "find_replace self st =
           (Inr (), st\<lparr>cwd := (cwd st)(temp_directory self \<mapsto>
              Dir (map (\<lambda>e. text_file (fst e,
                     replace_string self @
                     concat (map (\<lambda>c. c # replace_string self) (universal_newlines (snd e))))) ts))\<rparr>) \<and>
         (\<forall>s new. py_replace [] new s = new @ concat (map (\<lambda>c. c # new) s) \<and>
            length (py_replace [] new s) = length s + (length s + 1) * length new \<and>
            (py_replace [] new s = s \<longleftrightarrow> new = []))"
proof -
  have r: "replaced (search_string self) (replace_string self) =
        (\<lambda>e. text_file (fst e, replace_string self @
                     concat (map (\<lambda>c. c # replace_string self) (universal_newlines (snd e)))))"
    using assms(3) by (simp add: replaced_def text_file_def py_replace_empty_old fun_eq_iff)
  have a: "find_replace self st =
           (Inr (), st\<lparr>cwd := (cwd st)(temp_directory self \<mapsto>
              Dir (map (\<lambda>e. text_file (fst e,
                     replace_string self @
                     concat (map (\<lambda>c. c # replace_string self) (universal_newlines (snd e))))) ts))\<rparr>)"
    using ZipReplace_process_files_texts[OF assms(1,2)] by (simp only: find_replace_eq r)
  show ?thesis
    using a py_replace_empty_old py_replace_empty_old_length py_replace_empty_old_same by blast
qed

theorem empty_search_string_inserts_witness:
  "cwd (unzipped_world ''t.zip'' (map text_file [(''note.txt'', ''abc'')]))
       (temp_directory (ZipReplace_init ''t.zip'' [] ''-'')) =
     Some (Dir (map text_file [(''note.txt'', ''abc'')])) \<and>
   distinct (map fst [(''note.txt'', ''abc'')]) \<and>
   search_string (ZipReplace_init ''t.zip'' [] ''-'') = [] \<and>
   fst (find_replace (ZipReplace_init ''t.zip'' [] ''-'')
       (unzipped_world ''t.zip'' (map text_file [(''note.txt'', ''abc'')]))) = Inr () \<and>
   cwd (snd (find_replace (ZipReplace_init ''t.zip'' [] ''-'')
       (unzipped_world ''t.zip'' (map text_file [(''note.txt'', ''abc'')])))) ''unzipped-t.zip'' =
     Some (Dir [(''note.txt'', File (Text ''-a-b-c-''))])"
proof -
  let ?ts = "[(''note.txt'', ''abc'')]"
  let ?st = "unzipped_world ''t.zip'' (map text_file ?ts)"
  let ?self = "ZipReplace_init ''t.zip'' [] ''-''"
  have h1: "cwd ?st (temp_directory ?self) = Some (Dir (map text_file ?ts))"
    by (simp add: unzipped_world_def)
  have h2: "distinct (map fst ?ts)" by simp
  have h3: "search_string ?self = []" by simp
  from empty_search_string_inserts[OF h1 h2 h3]
  have "find_replace ?self ?st =
           (Inr (), ?st\<lparr>cwd := (cwd ?st)(temp_directory ?self \<mapsto>
              Dir (map (\<lambda>e. text_file (fst e,
                     replace_string ?self @
                     concat (map (\<lambda>c. c # replace_string ?self) (universal_newlines (snd e))))) ?ts))\<rparr>)"
    by blast
  then have "fst (find_replace ?self ?st) = Inr ()"
    "cwd (snd (find_replace ?self ?st)) ''unzipped-t.zip'' = Some (Dir [(''note.txt'', File (Text ''-a-b-c-''))])"
    by (simp_all add: text_file_def CR_def)
  with h1 h2 h3 show ?thesis by blast
qed

text \<open>
  The claim as it was stated fails when the replace string is empty as well: the text
  \<open>abc\<close> is left as it is.
\<close>

theorem empty_search_and_replace_change_nothing:
  "fst (find_replace (ZipReplace_init ''t.zip'' [] [])
     (unzipped_world ''t.zip'' [(''note.txt'', File (Text ''abc''))])) = Inr () \<and>
   cwd (snd (find_replace (ZipReplace_init ''t.zip'' [] [])
     (unzipped_world ''t.zip'' [(''note.txt'', File (Text ''abc''))]))) ''unzipped-t.zip'' =
     Some (Dir [(''note.txt'', File (Text ''abc''))]) \<and>
   length ''abc'' \<noteq> 0"
  by (simp add: run_defs unzipped_world_def)

end
